theory Spec2Isabelle
  imports Main "HOL-Library.Word"
begin

section \<open>The maplab server node: data model\<close>

text \<open>
  The model follows \<^verbatim>\<open>maplab-server-node.cc\<close>. A failed \<^verbatim>\<open>CHECK\<close> or a
  \<^verbatim>\<open>LOG(FATAL)\<close> aborts the process: that is the outcome \<open>Fatal\<close>. Everything else
  returns a value, together with the updated state where the code mutates it.
\<close>

datatype 'a outcome = Fatal | Returns 'a

type_synonym int64 = "64 word"
type_synonym size_t = "64 word"
type_synonym sensor_id = nat

text \<open>Identifiers (\<^verbatim>\<open>vi_map::MissionId\<close>, \<^verbatim>\<open>MissionBaseFrameId\<close>) are valid or invalid.\<close>

datatype unique_id = InvalidId | ValidId nat

fun isValid :: "unique_id \<Rightarrow> bool" where
  "isValid InvalidId = False"
| "isValid (ValidId n) = True"

text \<open>
  The sensor kinds \<^verbatim>\<open>mapLookup\<close> tells apart; every other value of the enumeration
  \<^verbatim>\<open>vi_map::SensorType\<close> takes its last branch and is \<open>kOtherSensor\<close> here.
\<close>

datatype SensorType = kNCamera | kImu | kLidar | kOdometry6DoF | kOtherSensor

datatype MapLookupStatus =
  kSuccess | kNoSuchMission | kNoSuchSensor | kPoseNeverAvailable | kPoseNotAvailableYet

text \<open>
  A mission of a map, as far as the server node reads or writes it: its identifier, the
  sensors it has (\<open>None\<close>: no such sensor, \<^verbatim>\<open>hasNCamera()\<close> and its siblings are false), its
  base frame with the alignment \<open>T_G_M\<close> and the flag \<^verbatim>\<open>is_T_G_M_known\<close>, and the pose
  graph the interpolator works on (time stamp and pose of every vertex). The type \<open>'t\<close>
  is \<^verbatim>\<open>aslam::Transformation\<close>.
\<close>

record 't VIMission =
  mission_id :: unique_id
  base_frame_id :: unique_id
  T_G_M :: 't
  is_T_G_M_known :: bool
  ncamera_id :: "sensor_id option"
  imu_id :: "sensor_id option"
  lidar_id :: "sensor_id option"
  odometry_6dof_id :: "sensor_id option"
  vertices :: "(int64 \<times> 't) list"

record 't VIMap =
  missions :: "'t VIMission list"
  sensor_T_B_S :: "sensor_id \<Rightarrow> 't"

definition numMissions :: "'t VIMap \<Rightarrow> nat" where
  "numMissions m = length (missions m)"

definition getMission :: "'t VIMap \<Rightarrow> unique_id \<Rightarrow> 't VIMission option" where
  "getMission m i = find (\<lambda>mi. mission_id mi = i) (missions m)"

text \<open>
  The control point of the worker job that \<^verbatim>\<open>loadAndProcessSubmap\<close> hands to the thread
  pool: not started, holding the task's mutex before the load, inside the command loop
  with the commands still to run, past the loop with \<^verbatim>\<open>is_processed\<close> set and the mutex
  still held, and returned.
\<close>

datatype job_pc =
  JobQueued | JobLoading | JobProcessing "string list" | JobFinishing | JobReturned

text \<open>
  \<^verbatim>\<open>SubmapProcess\<close>: the fields of the struct, the state of its \<^verbatim>\<open>std::mutex\<close>, and
  history the code does not store: the arrival number of the task, the control point of
  its job, the commands the job has run and whether the job saw the shutdown flag set.
\<close>

record SubmapProcess =
  path :: string
  robot_name :: string
  map_hash :: size_t
  map_key :: string
  is_loaded :: bool
  is_processed :: bool
  is_merged :: bool
  mutex_locked :: bool
  arrival :: nat
  job :: job_pc
  commands_run :: "string list"
  shutdown_observed :: bool

text \<open>
  The members of \<^verbatim>\<open>MaplabServerNode\<close> the claims are about. \<open>merged_tasks\<close> (the tasks
  popped from the queue, in the order they were popped) and \<open>arrivals\<close> (how many tasks
  were ever enqueued) are history; \<open>received_first_submap\<close> is the local variable of the
  merging thread.
\<close>

record 't server_state =
  submap_processing_queue :: "SubmapProcess list"
  map_manager :: "string \<rightharpoonup> 't VIMap"
  robot_to_mission_id_map :: "string \<rightharpoonup> unique_id"
  shut_down_requested :: bool
  submap_commands :: "size_t \<rightharpoonup> string"
  current_merge_command :: string
  received_first_submap :: bool
  merged_tasks :: "SubmapProcess list"
  arrivals :: nat

text \<open>
  What the file takes from outside: \<^verbatim>\<open>std::hash<std::string>\<close>, the constant
  \<^verbatim>\<open>kMergedMapKey\<close> of the header, the two command lists of the configuration, and the
  collaborators: the map store's loader (the folder's content, \<open>None\<close> when loading
  fails) and merger (\<open>None\<close> when merging fails), the console that runs a command on the
  selected map and reports success, and the pose interpolator (the time range of a
  mission and the pose at a time stamp).
\<close>

record 't environment =
  std_hash :: "string \<Rightarrow> size_t"
  kMergedMapKey :: string
  config_submap_commands :: "string list"
  config_global_map_commands :: "string list"
  loadMapFromFolder :: "string \<Rightarrow> 't VIMap option"
  mergeSubmapIntoBaseMap :: "'t VIMap \<Rightarrow> 't VIMap \<Rightarrow> 't VIMap option"
  RunCommand :: "string \<Rightarrow> 't VIMap \<Rightarrow> bool \<times> 't VIMap"
  getVertexToTimeStampMap :: "'t VIMap \<Rightarrow> unique_id \<Rightarrow> int64 \<times> int64"
  interpolate_pose :: "'t VIMap \<Rightarrow> unique_id \<Rightarrow> int64 \<Rightarrow> 't"

text \<open>
  The algebra of \<^verbatim>\<open>aslam::Transformation\<close> and \<^verbatim>\<open>Eigen::Vector3d\<close> (\<open>'p\<close>): the product
  of two transformations, a transformation applied to a point, and the zero vector.
\<close>

record ('t, 'p) geometry =
  tf_mult :: "'t \<Rightarrow> 't \<Rightarrow> 't"
  tf_apply :: "'t \<Rightarrow> 'p \<Rightarrow> 'p"
  vec_zero :: "'p"

definition initial_state :: "'t server_state" where
  "initial_state =
     \<lparr> submap_processing_queue = [], map_manager = Map.empty,
       robot_to_mission_id_map = Map.empty, shut_down_requested = False,
       submap_commands = Map.empty, current_merge_command = [],
       received_first_submap = False, merged_tasks = [], arrivals = 0 \<rparr>"

section \<open>Ingestion\<close>

text \<open>\<^verbatim>\<open>std::to_string\<close> of a \<^verbatim>\<open>size_t\<close>: its decimal digits, most significant first.\<close>

definition digit_char :: "nat \<Rightarrow> char" where
  "digit_char d = ''0123456789'' ! d"

fun to_string_nat :: "nat \<Rightarrow> string" where
  "to_string_nat n =
     (if n < 10 then [digit_char n]
      else to_string_nat (n div 10) @ [digit_char (n mod 10)])"

declare to_string_nat.simps [simp del]

definition to_string :: "size_t \<Rightarrow> string" where
  "to_string h = to_string_nat (unat h)"

text \<open>Lines 431 to 433: the key is the robot name, an underscore and the hash of the path.\<close>

definition derive_map_key :: "string \<Rightarrow> size_t \<Rightarrow> string" where
  "derive_map_key robot h = robot @ ''_'' @ to_string h"

definition new_submap_process ::
  "'t environment \<Rightarrow> string \<Rightarrow> string \<Rightarrow> nat \<Rightarrow> SubmapProcess" where
  "new_submap_process env robot submap_path n =
     \<lparr> path = submap_path, robot_name = robot,
       map_hash = std_hash env submap_path,
       map_key = derive_map_key robot (std_hash env submap_path),
       is_loaded = False, is_processed = False, is_merged = False,
       mutex_locked = False, arrival = n, job = JobQueued,
       commands_run = [], shutdown_observed = False \<rparr>"

text \<open>
  \<^verbatim>\<open>loadAndProcessSubmap\<close> (lines 407 to 526): two checks that abort, the refusal after a
  shutdown request, and otherwise a new task at the back of the queue whose job waits in
  the thread pool.
\<close>

definition loadAndProcessSubmap ::
  "'t environment \<Rightarrow> string \<Rightarrow> string \<Rightarrow> 't server_state
     \<Rightarrow> (bool \<times> 't server_state) outcome" where
  "loadAndProcessSubmap env robot submap_path s =
     (if submap_path = [] then Fatal
      else if robot = [] then Fatal
      else if shut_down_requested s then Returns (False, s)
      else Returns (True,
        s\<lparr> submap_processing_queue :=
             submap_processing_queue s
               @ [new_submap_process env robot submap_path (arrivals s)],
           arrivals := Suc (arrivals s) \<rparr>))"

section \<open>The worker job\<close>

definition update_task ::
  "nat \<Rightarrow> SubmapProcess \<Rightarrow> 't server_state \<Rightarrow> 't server_state" where
  "update_task i sp s =
     s\<lparr> submap_processing_queue := (submap_processing_queue s)[i := sp] \<rparr>"

text \<open>
  Modelled from the spec: the console (\<^verbatim>\<open>MapLabConsole::RunCommand\<close>) is not in the
  source. It executes a named operation against the currently selected map and reports
  success or failure; without that map the command fails and the store is as before.
\<close>

definition run_console_command ::
  "'t environment \<Rightarrow> string \<Rightarrow> string \<Rightarrow> (string \<rightharpoonup> 't VIMap) \<Rightarrow> (string \<rightharpoonup> 't VIMap)" where
  "run_console_command env command key store =
     (case store key of
        None \<Rightarrow> store
      | Some m \<Rightarrow> store(key \<mapsto> snd (RunCommand env command m)))"

text \<open>
  One step of the job of the task at position \<open>i\<close> of the queue (lines 443 to 522).
  \<^item> \<open>JobQueued\<close>: the lock guard of line 444 takes the mutex when it is free, and line 451
    records the command \<^verbatim>\<open>loading\<close>.
  \<^item> \<open>JobLoading\<close>: lines 458 to 468; a key already in the store and a failed load abort.
  \<^item> \<open>JobProcessing (c # cs)\<close>: one round of the loop of line 483: the command is recorded
    and run, its failure only logged; then the shutdown flag is read, and when it is set
    the job erases its command entry and returns, releasing the mutex.
  \<^item> \<open>JobProcessing []\<close>: lines 512 to 516 after the loop.
  \<^item> \<open>JobFinishing\<close>: the return of line 521 releases the mutex.
\<close>

definition job_step :: "'t environment \<Rightarrow> nat \<Rightarrow> 't server_state \<Rightarrow> 't server_state outcome" where
  "job_step env i s =
     (if length (submap_processing_queue s) \<le> i then Returns s
      else
        let sp = submap_processing_queue s ! i in
        case job sp of
          JobQueued \<Rightarrow>
            if mutex_locked sp then Returns s
            else Returns
              (update_task i (sp\<lparr> mutex_locked := True, job := JobLoading \<rparr>)
                (s\<lparr> submap_commands := (submap_commands s)(map_hash sp \<mapsto> ''loading'') \<rparr>))
        | JobLoading \<Rightarrow>
            if map_manager s (map_key sp) \<noteq> None then Fatal
            else (case loadMapFromFolder env (path sp) of
                None \<Rightarrow> Fatal
              | Some m \<Rightarrow> Returns
                  (update_task i
                    (sp\<lparr> is_loaded := True, job := JobProcessing (config_submap_commands env) \<rparr>)
                    (s\<lparr> map_manager := (map_manager s)(map_key sp \<mapsto> m) \<rparr>)))
        | JobProcessing [] \<Rightarrow>
            Returns
              (update_task i (sp\<lparr> is_processed := True, job := JobFinishing \<rparr>)
                (s\<lparr> submap_commands := (submap_commands s)(map_hash sp := None) \<rparr>))
        | JobProcessing (command # rest) \<Rightarrow>
            let store = run_console_command env command (map_key sp) (map_manager s) in
            if shut_down_requested s then Returns
              (update_task i
                (sp\<lparr> mutex_locked := False, job := JobReturned,
                    commands_run := commands_run sp @ [command],
                    shutdown_observed := True \<rparr>)
                (s\<lparr> map_manager := store,
                    submap_commands := (submap_commands s)(map_hash sp := None) \<rparr>))
            else Returns
              (update_task i
                (sp\<lparr> job := JobProcessing rest,
                    commands_run := commands_run sp @ [command] \<rparr>)
                (s\<lparr> map_manager := store,
                    submap_commands := (submap_commands s)(map_hash sp \<mapsto> command) \<rparr>))
        | JobFinishing \<Rightarrow>
            Returns (update_task i (sp\<lparr> mutex_locked := False, job := JobReturned \<rparr>) s)
        | JobReturned \<Rightarrow> Returns s)"

section \<open>The merging thread\<close>

text \<open>
  Lines 155 to 164: the map that became the merged map has one mission, whose base frame
  is now known.
\<close>

definition set_first_baseframe_known :: "'t VIMap \<Rightarrow> 't VIMap outcome" where
  "set_first_baseframe_known m =
     (case missions m of
        [mi] \<Rightarrow>
          if \<not> isValid (mission_id mi) then Fatal
          else if \<not> isValid (base_frame_id mi) then Fatal
          else Returns (m\<lparr> missions := [mi\<lparr> is_T_G_M_known := True \<rparr>] \<rparr>)
      | _ \<Rightarrow> Fatal)"

text \<open>
  Lines 148 to 181 on the map store. Without a merged map the submap is renamed into it
  (the second component of the result says so); with one, the submap is merged into it
  and deleted.
\<close>

definition merge_into_global ::
  "'t environment \<Rightarrow> string \<Rightarrow> 't VIMap \<Rightarrow> (string \<rightharpoonup> 't VIMap)
     \<Rightarrow> ((string \<rightharpoonup> 't VIMap) \<times> bool) outcome" where
  "merge_into_global env key submap store =
     (case store (kMergedMapKey env) of
        None \<Rightarrow>
          (case set_first_baseframe_known submap of
             Fatal \<Rightarrow> Fatal
           | Returns m \<Rightarrow> Returns ((store(key := None))(kMergedMapKey env \<mapsto> m), True))
      | Some base \<Rightarrow>
          (case mergeSubmapIntoBaseMap env base submap of
             None \<Rightarrow> Fatal
           | Some merged \<Rightarrow> Returns ((store(kMergedMapKey env \<mapsto> merged))(key := None), False)))"

text \<open>
  One round of the loop of lines 102 to 204, under the queue's mutex. The first component
  of the result says whether the loop goes on: it does not when the queue is empty, a
  shutdown is requested, the mutex of the front task is taken, or the front task is not
  loaded or not processed (the three \<^verbatim>\<open>break\<close>s). Otherwise the front task is merged,
  marked, unlocked and popped.
\<close>

definition merge_front ::
  "'t environment \<Rightarrow> 't server_state \<Rightarrow> (bool \<times> 't server_state) outcome" where
  "merge_front env s =
     (case submap_processing_queue s of
        [] \<Rightarrow> Returns (False, s)
      | sp # rest \<Rightarrow>
          if shut_down_requested s then Returns (False, s)
          else if mutex_locked sp then Returns (False, s)
          else if \<not> is_loaded sp then Returns (False, s)
          else if \<not> is_processed sp then Returns (False, s)
          else if map_key sp = [] then Fatal
          else (case map_manager s (map_key sp) of
              None \<Rightarrow> Fatal
            | Some submap \<Rightarrow>
                if numMissions submap \<noteq> 1 then Fatal
                else
                  let submap_mission_id = mission_id (hd (missions submap)) in
                  (case merge_into_global env (map_key sp) submap (map_manager s) of
                     Fatal \<Rightarrow> Fatal
                   | Returns (store, first) \<Rightarrow>
                       if store (kMergedMapKey env) = None then Fatal
                       else if store (map_key sp) \<noteq> None then Fatal
                       else if \<not> isValid submap_mission_id then Fatal
                       else Returns (True,
                         s\<lparr> submap_processing_queue := rest,
                            map_manager := store,
                            robot_to_mission_id_map :=
                              (if robot_name sp \<noteq> []
                               then (robot_to_mission_id_map s)(robot_name sp \<mapsto> submap_mission_id)
                               else robot_to_mission_id_map s),
                            current_merge_command := ''merging submap'',
                            received_first_submap := (received_first_submap s \<or> first),
                            merged_tasks :=
                              merged_tasks s @ [sp\<lparr> is_merged := True, mutex_locked := False \<rparr>] \<rparr>))))"

text \<open>The whole loop of lines 102 to 204 when nothing else runs in between.\<close>

function merge_ready_submaps ::
  "'t environment \<Rightarrow> 't server_state \<Rightarrow> 't server_state outcome" where
  "merge_ready_submaps env s =
     (case merge_front env s of
        Fatal \<Rightarrow> Fatal
      | Returns (continue, s') \<Rightarrow>
          if continue then merge_ready_submaps env s' else Returns s')"
  by pat_completeness auto
termination
proof (relation "measure (\<lambda>(env, s). length (submap_processing_queue s))")
  show "wf (measure (\<lambda>(env :: 't environment, s :: 't server_state).
              length (submap_processing_queue s)))"
    by simp
next
  fix env :: "'t environment" and s :: "'t server_state" and x2 x y
  assume "merge_front env s = Returns x2" and "(x, y) = x2" and "x"
  then have "merge_front env s = Returns (True, y)"
    by auto
  then have "length (submap_processing_queue y) < length (submap_processing_queue s)"
    by (auto simp: merge_front_def Let_def
        split: list.splits if_splits option.splits outcome.splits prod.splits)
  then show "((env, y), (env, s)) \<in> measure (\<lambda>(env, s). length (submap_processing_queue s))"
    by simp
qed

declare merge_ready_submaps.simps [simp del]

text \<open>
  Lines 207 to 239: once a first submap was merged, the commands of the configuration
  run on the merged map, and the current command is cleared.
\<close>

definition run_global_map_commands :: "'t environment \<Rightarrow> 't server_state \<Rightarrow> 't server_state" where
  "run_global_map_commands env s =
     (if received_first_submap s then
        s\<lparr> map_manager :=
             fold (\<lambda>command store. run_console_command env command (kMergedMapKey env) store)
               (config_global_map_commands env) (map_manager s),
           current_merge_command := [] \<rparr>
      else s)"

text \<open>Line 378 of \<^verbatim>\<open>shutdown\<close>.\<close>

definition request_shutdown :: "'t server_state \<Rightarrow> 't server_state" where
  "request_shutdown s = s\<lparr> shut_down_requested := True \<rparr>"

section \<open>The threads together\<close>

text \<open>
  The threads interleave. An event is one atomic piece of one of them: a call of
  \<^verbatim>\<open>loadAndProcessSubmap\<close>, a step of the job of the task at a position of the queue, a
  round of the merge loop, the global commands, or the shutdown request. A run executes
  a list of events from a state and is \<open>Fatal\<close> as soon as one of them aborts. Any
  order of events is a run: the thread pool may start the jobs in any order and leave
  some unstarted, and an iteration of the merging thread that line 78 skips, or that a
  shutdown ends, is a run without the events of that iteration.
\<close>

datatype event =
  Submit string string | Job nat | MergeRound | GlobalCommands | Shutdown

fun do_event :: "'t environment \<Rightarrow> event \<Rightarrow> 't server_state \<Rightarrow> 't server_state outcome" where
  "do_event env (Submit robot submap_path) s =
     (case loadAndProcessSubmap env robot submap_path s of
        Fatal \<Rightarrow> Fatal
      | Returns (accepted, s') \<Rightarrow> Returns s')"
| "do_event env (Job i) s = job_step env i s"
| "do_event env MergeRound s =
     (case merge_front env s of
        Fatal \<Rightarrow> Fatal
      | Returns (continue, s') \<Rightarrow> Returns s')"
| "do_event env GlobalCommands s = Returns (run_global_map_commands env s)"
| "do_event env Shutdown s = Returns (request_shutdown s)"

fun run :: "'t environment \<Rightarrow> event list \<Rightarrow> 't server_state \<Rightarrow> 't server_state outcome" where
  "run env [] s = Returns s"
| "run env (e # es) s =
     (case do_event env e s of
        Fatal \<Rightarrow> Fatal
      | Returns s' \<Rightarrow> run env es s')"

section \<open>The status thread\<close>

datatype status_label =
  StatusMerged | StatusError | StatusMerging | StatusReadyToMerge | StatusProcessing
  | StatusQueuedForProcessing | StatusLoading | StatusQueuedForLoading

text \<open>
  Lines 282 to 317: \<^verbatim>\<open>try_lock\<close> fails exactly when the mutex is taken, and the label
  follows from that and the three flags. The eight conditions of the source cover every
  case, so its last one is the final \<open>else\<close> here.
\<close>

definition submap_status :: "SubmapProcess \<Rightarrow> status_label" where
  "submap_status sp =
     (let was_locked_by_other_process = mutex_locked sp in
      if is_merged sp \<and> was_locked_by_other_process then StatusMerged
      else if is_merged sp \<and> \<not> was_locked_by_other_process then StatusError
      else if is_processed sp \<and> was_locked_by_other_process then StatusMerging
      else if is_processed sp \<and> \<not> was_locked_by_other_process then StatusReadyToMerge
      else if is_loaded sp \<and> was_locked_by_other_process then StatusProcessing
      else if is_loaded sp \<and> \<not> was_locked_by_other_process then StatusQueuedForProcessing
      else if \<not> is_loaded sp \<and> was_locked_by_other_process then StatusLoading
      else StatusQueuedForLoading)"

definition status_report :: "'t server_state \<Rightarrow> (string \<times> status_label) list" where
  "status_report s = map (\<lambda>sp. (map_key sp, submap_status sp)) (submap_processing_queue s)"

section \<open>Map lookup\<close>

text \<open>Lines 605 to 638: the sensor of the requested kind, when the mission has one.\<close>

fun resolve_sensor :: "'t VIMission \<Rightarrow> SensorType \<Rightarrow> sensor_id option" where
  "resolve_sensor mission kNCamera = ncamera_id mission"
| "resolve_sensor mission kImu = imu_id mission"
| "resolve_sensor mission kLidar = lidar_id mission"
| "resolve_sensor mission kOdometry6DoF = odometry_6dof_id mission"
| "resolve_sensor mission kOtherSensor = None"

text \<open>
  Modelled from the spec: the interpolator (\<^verbatim>\<open>PoseInterpolator::getPosesAtTime\<close>) is
  not in the source. It returns an interpolated body pose for each requested time stamp.
\<close>

definition getPosesAtTime ::
  "'t environment \<Rightarrow> 't VIMap \<Rightarrow> unique_id \<Rightarrow> int64 list \<Rightarrow> 't list" where
  "getPosesAtTime env m i timestamps = map (interpolate_pose env m i) timestamps"

text \<open>
  \<^verbatim>\<open>mapLookup\<close> (lines 566 to 684). The two output points are written on success only:
  they are the second component of the result. Reading a merged map or a mission that
  does not exist aborts inside the map store.
\<close>

definition mapLookup ::
  "('t, 'p) geometry \<Rightarrow> 't environment \<Rightarrow> 't server_state \<Rightarrow> string \<Rightarrow> SensorType
     \<Rightarrow> int64 \<Rightarrow> 'p \<Rightarrow> (MapLookupStatus \<times> ('p \<times> 'p) option) outcome" where
  "mapLookup geo env s robot sensor_type timestamp_ns p_S =
     (if robot = [] then Returns (kNoSuchMission, None)
      else case robot_to_mission_id_map s robot of
          None \<Rightarrow> Returns (kNoSuchMission, None)
        | Some submap_mission_id \<Rightarrow>
            if timestamp_ns <s 0 then Returns (kPoseNeverAvailable, None)
            else if \<not> isValid submap_mission_id then Fatal
            else (case map_manager s (kMergedMapKey env) of
                None \<Rightarrow> Fatal
              | Some m \<Rightarrow>
                 (case getMission m submap_mission_id of
                    None \<Rightarrow> Fatal
                  | Some mission \<Rightarrow>
                     (case resolve_sensor mission sensor_type of
                        None \<Rightarrow> Returns (kNoSuchSensor, None)
                      | Some sensor \<Rightarrow>
                          let T_B_S = sensor_T_B_S m sensor;
                              T_G_M = T_G_M mission;
                              (min_timestamp_ns, max_timestamp_ns) =
                                 getVertexToTimeStampMap env m submap_mission_id
                          in
                          if timestamp_ns <s min_timestamp_ns
                            then Returns (kPoseNeverAvailable, None)
                          else if max_timestamp_ns <s timestamp_ns
                            then Returns (kPoseNotAvailableYet, None)
                          else
                            let T_M_B_vector =
                                  getPosesAtTime env m submap_mission_id [timestamp_ns]
                            in
                            if length T_M_B_vector \<noteq> 1 then Fatal
                            else
                              let T_G_B = tf_mult geo T_G_M (T_M_B_vector ! 0);
                                  T_G_S = tf_mult geo T_G_B T_B_S
                              in Returns (kSuccess,
                                   Some (tf_apply geo T_G_S p_S,
                                         tf_apply geo T_G_S (vec_zero geo)))))))"

section \<open>Invariants of the task queue\<close>

text \<open>
  What holds of a task in the queue at each control point of its job, of a task that
  was merged and popped, and of the queue as a whole: the arrival numbers of the merged
  tasks followed by those of the queued tasks count up from 0.
\<close>

definition task_wf :: "'t environment \<Rightarrow> SubmapProcess \<Rightarrow> bool" where
  "task_wf env sp \<longleftrightarrow>
     \<not> is_merged sp \<and> map_key sp = derive_map_key (robot_name sp) (map_hash sp) \<and>
     (case job sp of
        JobQueued \<Rightarrow>
          \<not> is_loaded sp \<and> \<not> is_processed sp \<and> \<not> mutex_locked sp
          \<and> commands_run sp = [] \<and> \<not> shutdown_observed sp
      | JobLoading \<Rightarrow>
          \<not> is_loaded sp \<and> \<not> is_processed sp \<and> mutex_locked sp
          \<and> commands_run sp = [] \<and> \<not> shutdown_observed sp
      | JobProcessing rest \<Rightarrow>
          is_loaded sp \<and> \<not> is_processed sp \<and> mutex_locked sp
          \<and> commands_run sp @ rest = config_submap_commands env \<and> \<not> shutdown_observed sp
      | JobFinishing \<Rightarrow>
          is_loaded sp \<and> is_processed sp \<and> mutex_locked sp
          \<and> commands_run sp = config_submap_commands env \<and> \<not> shutdown_observed sp
      | JobReturned \<Rightarrow>
          is_loaded sp \<and> \<not> mutex_locked sp
          \<and> (if shutdown_observed sp then \<not> is_processed sp
              else is_processed sp \<and> commands_run sp = config_submap_commands env))"

definition merged_wf :: "'t environment \<Rightarrow> SubmapProcess \<Rightarrow> bool" where
  "merged_wf env sp \<longleftrightarrow>
     is_merged sp \<and> is_processed sp \<and> is_loaded sp \<and> \<not> mutex_locked sp
     \<and> job sp = JobReturned \<and> commands_run sp = config_submap_commands env
     \<and> \<not> shutdown_observed sp"

definition queue_inv :: "'t environment \<Rightarrow> 't server_state \<Rightarrow> bool" where
  "queue_inv env s \<longleftrightarrow>
     list_all (task_wf env) (submap_processing_queue s)
     \<and> list_all (merged_wf env) (merged_tasks s)
     \<and> map arrival (merged_tasks s @ submap_processing_queue s) = [0..<arrivals s]"

text \<open>
  The merged map exists exactly when a task has been merged. This needs a merged-map key
  that no task can have: the key of a task ends in a decimal digit.
\<close>

definition ends_in_digit :: "string \<Rightarrow> bool" where
  "ends_in_digit k \<longleftrightarrow> k \<noteq> [] \<and> last k \<in> set ''0123456789''"


text \<open>The same task later: no flag that was set is cleared.\<close>

definition no_flag_reset :: "SubmapProcess \<Rightarrow> SubmapProcess \<Rightarrow> bool" where
  "no_flag_reset sp sp' \<longleftrightarrow>
     arrival sp' = arrival sp
     \<and> (is_loaded sp \<longrightarrow> is_loaded sp')
     \<and> (is_processed sp \<longrightarrow> is_processed sp')
     \<and> (is_merged sp \<longrightarrow> is_merged sp')"

section \<open>A concrete environment\<close>

text \<open>
  An instance to evaluate the definitions on: transformations of the line
  \<open>x \<mapsto> a * x + b\<close> as pairs \<open>(a, b)\<close>, whose product does not commute, a polynomial
  string hash, a loader that finds the same one-mission submap in every folder, a merger
  that appends the missions of the submap, commands that succeed and change nothing,
  and an interpolator that answers from the vertices of the mission.
\<close>

definition example_geometry :: "(int \<times> int, int) geometry" where
  "example_geometry =
     \<lparr> tf_mult = (\<lambda>(a, b) (c, d). (a * c, a * d + b)),
       tf_apply = (\<lambda>(a, b) x. a * x + b),
       vec_zero = 0 \<rparr>"

definition example_hash :: "string \<Rightarrow> size_t" where
  "example_hash str = fold (\<lambda>c h. h * 31 + of_char c) str 7"

definition example_mission :: "(int \<times> int) VIMission" where
  "example_mission =
     \<lparr> mission_id = ValidId 7, base_frame_id = ValidId 1, T_G_M = (2, 3),
       is_T_G_M_known = False, ncamera_id = Some 0, imu_id = Some 1,
       lidar_id = None, odometry_6dof_id = None,
       vertices = [(100, (1, 5)), (200, (1, 9))] \<rparr>"

definition example_submap :: "(int \<times> int) VIMap" where
  "example_submap =
     \<lparr> missions = [example_mission], sensor_T_B_S = (\<lambda>sensor. (3, int sensor + 1)) \<rparr>"

definition example_time_range :: "(int \<times> int) VIMap \<Rightarrow> unique_id \<Rightarrow> int64 \<times> int64" where
  "example_time_range m i =
     (case getMission m i of
        None \<Rightarrow> (0, 0)
      | Some mission \<Rightarrow>
          (case vertices mission of
             [] \<Rightarrow> (0, 0)
           | v # vs \<Rightarrow> (fst v, fst (last (v # vs)))))"

definition example_interpolate :: "(int \<times> int) VIMap \<Rightarrow> unique_id \<Rightarrow> int64 \<Rightarrow> int \<times> int" where
  "example_interpolate m i t =
     (case getMission m i of
        None \<Rightarrow> (1, 0)
      | Some mission \<Rightarrow>
          (case filter (\<lambda>v. fst v \<le>s t) (vertices mission) of
             [] \<Rightarrow> (1, 0)
           | v # vs \<Rightarrow> snd (last (v # vs))))"

definition example_env :: "(int \<times> int) environment" where
  "example_env =
     \<lparr> std_hash = example_hash,
       kMergedMapKey = ''merged_map'',
       config_submap_commands = [''optimize'', ''keyframe''],
       config_global_map_commands = [''relax''],
       loadMapFromFolder = (\<lambda>folder. Some example_submap),
       mergeSubmapIntoBaseMap =
         (\<lambda>base submap. Some (base\<lparr> missions := missions base @ missions submap \<rparr>)),
       RunCommand = (\<lambda>command m. (True, m)),
       getVertexToTimeStampMap = example_time_range,
       interpolate_pose = example_interpolate \<rparr>"

text \<open>A state after one merge: the merged map and the robot of its mission.\<close>

definition example_merged_state :: "(int \<times> int) server_state" where
  "example_merged_state =
     initial_state
       \<lparr> map_manager := [''merged_map'' \<mapsto> example_submap],
         robot_to_mission_id_map := [''robot_a'' \<mapsto> ValidId 7],
         received_first_submap := True \<rparr>"

text \<open>
  A state in which the job of a task is about to load its submap while the map store
  already holds a map under the key of the task.
\<close>

definition example_reloading_state :: "(int \<times> int) server_state" where
  "example_reloading_state =
     initial_state
       \<lparr> submap_processing_queue :=
           [(new_submap_process example_env ''robot_a'' ''/maps/s1'' 0)
              \<lparr> mutex_locked := True, job := JobLoading \<rparr>],
         map_manager :=
           [map_key (new_submap_process example_env ''robot_a'' ''/maps/s1'' 0)
              \<mapsto> example_submap],
         arrivals := 1 \<rparr>"

text \<open>
  Two interleavings to evaluate. In the first, two robots submit a submap each; the job
  of the second task runs to its end before the job of the first starts; a round of the
  merge loop in between finds the first task not loaded; then the job of the first task
  runs and a round merges it. In the second, a shutdown is requested while the job of
  the only task is inside its command loop. \<open>run_example\<close> is the state a run from
  the initial state ends in.
\<close>

definition run_example :: "event list \<Rightarrow> (int \<times> int) server_state" where
  "run_example evs =
     (case run example_env evs initial_state of Fatal \<Rightarrow> initial_state | Returns s \<Rightarrow> s)"

definition example_trace :: "event list" where
  "example_trace =
     [Submit ''robot_a'' ''/maps/s1'', Submit ''robot_b'' ''/maps/s2'',
      Job 1, Job 1, Job 1, Job 1, Job 1, Job 1, MergeRound,
      Job 0, Job 0, Job 0, Job 0, Job 0, Job 0, MergeRound]"

definition example_shutdown_trace :: "event list" where
  "example_shutdown_trace =
     [Submit ''robot_a'' ''/maps/s1'', Job 0, Job 0, Job 0, Shutdown, Job 0]"

text \<open>
  A task with all three flags set and its mutex free, as the status thread could read it.
\<close>

definition example_merged_task :: SubmapProcess where
  "example_merged_task =
     (new_submap_process example_env ''robot_a'' ''/maps/s1'' 0)
       \<lparr> is_loaded := True, is_processed := True, is_merged := True, job := JobReturned,
         commands_run := [''optimize'', ''keyframe''] \<rparr>"

section \<open>Lemmas\<close>

lemma list_all_update:
  "list_all P xs \<Longrightarrow> P y \<Longrightarrow> list_all P (xs[i := y])"
  by (induction xs arbitrary: i) (auto split: nat.splits)

lemma map_update_same:
  "i < length xs \<Longrightarrow> f y = f (xs ! i) \<Longrightarrow> map f (xs[i := y]) = map f xs"
  by (simp add: map_update list_update_same_conv)

lemma queue_inv_update_task:
  assumes "queue_inv env s" and "i < length (submap_processing_queue s)"
    and "task_wf env sp'" and "arrival sp' = arrival (submap_processing_queue s ! i)"
    and "submap_processing_queue s0 = submap_processing_queue s"
    and "merged_tasks s0 = merged_tasks s" and "arrivals s0 = arrivals s"
  shows "queue_inv env (update_task i sp' s0)"
  using assms by (simp add: queue_inv_def update_task_def list_all_update map_update_same)

lemma job_step_queue_inv:
  assumes "job_step env i s = Returns s'" and "queue_inv env s"
  shows "queue_inv env s'"
proof (cases "length (submap_processing_queue s) \<le> i")
  case True
  with assms show ?thesis by (simp add: job_step_def)
next
  case False
  define sp where "sp = submap_processing_queue s ! i"
  from False have i: "i < length (submap_processing_queue s)" by simp
  with assms(2) have wf: "task_wf env sp"
    by (simp add: queue_inv_def sp_def list_all_length)
  show ?thesis
  proof (cases "job sp")
    case JobQueued
    with assms(1) wf i show ?thesis
      by (auto simp: job_step_def sp_def[symmetric] task_wf_def
          split: if_splits intro!: queue_inv_update_task[OF assms(2) i])
  next
    case JobLoading
    with assms(1) wf i show ?thesis
      by (auto simp: job_step_def sp_def[symmetric] task_wf_def
          split: if_splits option.splits intro!: queue_inv_update_task[OF assms(2) i])
  next
    case (JobProcessing cs)
    with assms(1) wf i show ?thesis
      by (cases cs)
         (auto simp: job_step_def sp_def[symmetric] task_wf_def Let_def
          split: if_splits intro!: queue_inv_update_task[OF assms(2) i])
  next
    case JobFinishing
    with assms(1) wf i show ?thesis
      by (auto simp: job_step_def sp_def[symmetric] task_wf_def
          split: if_splits intro!: queue_inv_update_task[OF assms(2) i])
  next
    case JobReturned
    with assms i show ?thesis
      by (auto simp: job_step_def sp_def[symmetric])
  qed
qed

lemma submit_queue_inv:
  assumes "loadAndProcessSubmap env robot p s = Returns (b, s')" and "queue_inv env s"
  shows "queue_inv env s'"
  using assms
  by (auto simp: loadAndProcessSubmap_def queue_inv_def new_submap_process_def task_wf_def
      split: if_splits)

lemma merge_front_queue_inv:
  assumes "merge_front env s = Returns (c, s')" and "queue_inv env s"
  shows "queue_inv env s'"
proof (cases c)
  case False
  with assms(1) have "s' = s"
    by (auto simp: merge_front_def Let_def
        split: list.splits if_splits option.splits outcome.splits prod.splits)
  with assms(2) show ?thesis by simp
next
  case True
  with assms(1) obtain sp rest where q: "submap_processing_queue s = sp # rest"
    and r: "\<not> mutex_locked sp" "is_loaded sp" "is_processed sp"
    and q': "submap_processing_queue s' = rest"
    and m': "merged_tasks s' = merged_tasks s @ [sp\<lparr> is_merged := True, mutex_locked := False \<rparr>]"
    and a': "arrivals s' = arrivals s"
    by (auto simp: merge_front_def Let_def
        split: list.splits if_splits option.splits outcome.splits prod.splits)
  from assms(2) q have "task_wf env sp" by (simp add: queue_inv_def)
  with r have "merged_wf env (sp\<lparr> is_merged := True, mutex_locked := False \<rparr>)"
    by (auto simp: task_wf_def merged_wf_def split: job_pc.splits if_splits)
  with assms(2) q q' m' a' show ?thesis
    by (simp add: queue_inv_def)
qed

lemma do_event_queue_inv:
  assumes "do_event env e s = Returns s'" and "queue_inv env s"
  shows "queue_inv env s'"
proof (cases e)
  case (Submit robot p)
  with assms show ?thesis
    by (auto split: outcome.splits dest: submit_queue_inv)
next
  case (Job i)
  with assms show ?thesis by (auto dest: job_step_queue_inv)
next
  case MergeRound
  with assms show ?thesis
    by (auto split: outcome.splits dest: merge_front_queue_inv)
next
  case GlobalCommands
  with assms show ?thesis
    by (auto simp: run_global_map_commands_def queue_inv_def)
next
  case Shutdown
  with assms show ?thesis
    by (auto simp: request_shutdown_def queue_inv_def)
qed

lemma run_queue_inv:
  "run env evs s = Returns s' \<Longrightarrow> queue_inv env s \<Longrightarrow> queue_inv env s'"
  by (induction evs arbitrary: s) (auto split: outcome.splits dest: do_event_queue_inv)

lemma initial_queue_inv: "queue_inv env initial_state"
  by (simp add: queue_inv_def initial_state_def)

lemma digit_char_inj: "a < 10 \<Longrightarrow> b < 10 \<Longrightarrow> digit_char a = digit_char b \<Longrightarrow> a = b"
  unfolding digit_char_def
  by (rule nth_eq_iff_index_eq[THEN iffD1, of "''0123456789''"]) auto

lemma digit_char_is_digit: "d < 10 \<Longrightarrow> digit_char d \<in> set ''0123456789''"
  unfolding digit_char_def by (rule nth_mem) simp

lemma to_string_nat_nonempty: "to_string_nat n \<noteq> []"
  by (subst to_string_nat.simps) simp

lemma to_string_nat_digits: "set (to_string_nat n) \<subseteq> set ''0123456789''"
proof (induction n rule: to_string_nat.induct)
  case (1 n)
  show ?case
  proof (cases "n < 10")
    case True
    then show ?thesis
      using digit_char_is_digit[of n] by (subst to_string_nat.simps) simp
  next
    case False
    have "n mod 10 < 10" by simp
    then have "digit_char (n mod 10) \<in> set ''0123456789''"
      by (rule digit_char_is_digit)
    with False 1 show ?thesis
      by (subst to_string_nat.simps) simp
  qed
qed

lemma derive_map_key_ends_in_digit: "ends_in_digit (derive_map_key r h)"
proof -
  have "last (derive_map_key r h) = last (to_string h)"
    unfolding derive_map_key_def to_string_def using to_string_nat_nonempty by simp
  moreover have "last (to_string h) \<in> set (to_string h)"
    unfolding to_string_def using to_string_nat_nonempty by simp
  ultimately show ?thesis
    using to_string_nat_digits unfolding to_string_def derive_map_key_def ends_in_digit_def
    by auto
qed

lemma derive_map_key_neq:
  "\<not> ends_in_digit k \<Longrightarrow> derive_map_key r h \<noteq> k" "\<not> ends_in_digit k \<Longrightarrow> k \<noteq> derive_map_key r h"
  using derive_map_key_ends_in_digit by auto








lemma to_string_nat_inj: "to_string_nat m = to_string_nat n \<Longrightarrow> m = n"
proof (induction m arbitrary: n rule: to_string_nat.induct)
  case (1 m)
  show ?case
  proof (cases "m < 10")
    case m: True
    show ?thesis
    proof (cases "n < 10")
      case True
      with m 1(2) show ?thesis
        by (simp add: to_string_nat.simps[of m] to_string_nat.simps[of n] digit_char_inj)
    next
      case False
      with m 1(2) show ?thesis
        using to_string_nat_nonempty[of "n div 10"]
        by (simp add: to_string_nat.simps[of m] to_string_nat.simps[of n])
    qed
  next
    case m: False
    show ?thesis
    proof (cases "n < 10")
      case True
      with m 1(2) show ?thesis
        using to_string_nat_nonempty[of "m div 10"]
        by (simp add: to_string_nat.simps[of m] to_string_nat.simps[of n])
    next
      case False
      with m 1(2) have eq: "to_string_nat (m div 10) = to_string_nat (n div 10)"
        and d: "digit_char (m mod 10) = digit_char (n mod 10)"
        by (simp_all add: to_string_nat.simps[of m] to_string_nat.simps[of n])
      from 1(1)[OF m eq] have "m div 10 = n div 10" .
      moreover from d have "m mod 10 = n mod 10"
        by (intro digit_char_inj) simp_all
      ultimately show ?thesis
        by (metis div_mult_mod_eq)
    qed
  qed
qed

lemma to_string_inj: "to_string a = to_string b \<Longrightarrow> a = b"
  unfolding to_string_def by (auto dest!: to_string_nat_inj simp: word_unat_eq_iff)

lemma underscore_split:
  assumes "r1 @ CHR ''_'' # d1 = r2 @ CHR ''_'' # d2"
    and "CHR ''_'' \<notin> set d1" and "CHR ''_'' \<notin> set d2"
  shows "r1 = r2 \<and> d1 = d2"
  using assms
proof (induction r1 arbitrary: r2)
  case Nil
  then show ?case by (cases r2) auto
next
  case (Cons a r1)
  then show ?case by (cases r2) auto
qed

lemma derive_map_key_inj:
  "derive_map_key r1 h1 = derive_map_key r2 h2 \<longleftrightarrow> r1 = r2 \<and> h1 = h2"
proof
  assume eq: "derive_map_key r1 h1 = derive_map_key r2 h2"
  have "CHR ''_'' \<notin> set (to_string h1)" "CHR ''_'' \<notin> set (to_string h2)"
    using to_string_nat_digits unfolding to_string_def by auto
  with eq have "r1 = r2 \<and> to_string h1 = to_string h2"
    unfolding derive_map_key_def by (intro underscore_split) simp_all
  then show "r1 = r2 \<and> h1 = h2" by (auto dest: to_string_inj)
qed auto

text \<open>
  A hash of 64 bits cannot tell all paths apart, whatever \<^verbatim>\<open>std::hash\<close> computes.
\<close>

lemma std_hash_not_injective: "\<not> inj (std_hash env)"
proof
  assume "inj (std_hash env)"
  moreover have "finite (range (std_hash env))"
    by simp
  ultimately have "finite (UNIV :: string set)"
    by (rule finite_imageD[rotated])
  then show False
    using infinite_UNIV_listI by blast
qed

lemma example_hash_collision: "example_hash ''Aa'' = example_hash ''BB''"
  by (simp add: example_hash_def)

lemmas example_defs = example_env_def example_merged_state_def initial_state_def
  example_submap_def getMission_def example_mission_def example_time_range_def
  example_interpolate_def example_geometry_def getPosesAtTime_def

section \<open>Ingestion: rejected submissions and the map key\<close>

text \<open>
  C6 (amended). Submitting a submap with an empty robot name or an empty source path
  fails a \<^verbatim>\<open>CHECK\<close> of \<^verbatim>\<open>loadAndProcessSubmap\<close>: the process aborts, before the state
  is read or changed. The typed failure (\<open>false\<close>) is returned exactly when both
  arguments are non-empty and a shutdown has been requested, and then the state is
  unchanged. With both arguments non-empty and no shutdown requested the call returns
  \<open>true\<close> with the new task at the back of the queue.
\<close>

theorem submit_empty_argument_aborts:
  "(robot = [] \<or> submap_path = [] \<longrightarrow> loadAndProcessSubmap env robot submap_path s = Fatal)
   \<and> (robot \<noteq> [] \<and> submap_path \<noteq> [] \<and> shut_down_requested s
        \<longrightarrow> loadAndProcessSubmap env robot submap_path s = Returns (False, s))
   \<and> (\<forall>s'. loadAndProcessSubmap env robot submap_path s = Returns (False, s')
        \<longrightarrow> robot \<noteq> [] \<and> submap_path \<noteq> [] \<and> shut_down_requested s \<and> s' = s)
   \<and> (robot \<noteq> [] \<and> submap_path \<noteq> [] \<and> \<not> shut_down_requested s
        \<longrightarrow> loadAndProcessSubmap env robot submap_path s
            = Returns (True,
                s\<lparr> submap_processing_queue :=
                     submap_processing_queue s
                       @ [new_submap_process env robot submap_path (arrivals s)],
                   arrivals := Suc (arrivals s) \<rparr>))"
proof -
  have only_when: "robot \<noteq> [] \<and> submap_path \<noteq> [] \<and> shut_down_requested s \<and> s' = s"
    if "loadAndProcessSubmap env robot submap_path s = Returns (False, s')" for s'
    using that by (auto simp: loadAndProcessSubmap_def split: if_splits)
  have aborts: "robot = [] \<or> submap_path = []
      \<longrightarrow> loadAndProcessSubmap env robot submap_path s = Fatal"
    by (simp add: loadAndProcessSubmap_def)
  have refused: "robot \<noteq> [] \<and> submap_path \<noteq> [] \<and> shut_down_requested s
      \<longrightarrow> loadAndProcessSubmap env robot submap_path s = Returns (False, s)"
    by (simp add: loadAndProcessSubmap_def)
  have accepted: "robot \<noteq> [] \<and> submap_path \<noteq> [] \<and> \<not> shut_down_requested s
      \<longrightarrow> loadAndProcessSubmap env robot submap_path s
          = Returns (True,
              s\<lparr> submap_processing_queue :=
                   submap_processing_queue s
                     @ [new_submap_process env robot submap_path (arrivals s)],
                 arrivals := Suc (arrivals s) \<rparr>)"
    by (simp add: loadAndProcessSubmap_def)
  from aborts refused only_when accepted show ?thesis by blast
qed

text \<open>
  The cases on the example environment: the two aborts, the refusal after a shutdown
  request, and a submission that is accepted because no shutdown was requested.
\<close>

theorem submit_empty_argument_aborts_witness:
  "loadAndProcessSubmap example_env [] ''/maps/s1'' initial_state = Fatal
   \<and> loadAndProcessSubmap example_env ''robot_a'' [] initial_state = Fatal
   \<and> loadAndProcessSubmap example_env ''robot_a'' ''/maps/s1'' (request_shutdown initial_state)
       = Returns (False, request_shutdown initial_state)
   \<and> shut_down_requested (request_shutdown (initial_state :: (int \<times> int) server_state))
   \<and> loadAndProcessSubmap example_env ''robot_a'' ''/maps/s1'' initial_state
       = Returns (True,
           initial_state
             \<lparr> submap_processing_queue :=
                  [new_submap_process example_env ''robot_a'' ''/maps/s1'' 0],
               arrivals := 1 \<rparr>)"
proof -
  note abort_name = submit_empty_argument_aborts[where robot = "[]"
      and submap_path = "''/maps/s1''" and env = example_env and s = initial_state]
  note abort_path = submit_empty_argument_aborts[where robot = "''robot_a''"
      and submap_path = "[]" and env = example_env and s = initial_state]
  note refused = submit_empty_argument_aborts[where robot = "''robot_a''"
      and submap_path = "''/maps/s1''" and env = example_env
      and s = "request_shutdown initial_state"]
  note accepted = submit_empty_argument_aborts[where robot = "''robot_a''"
      and submap_path = "''/maps/s1''" and env = example_env and s = initial_state]
  have down: "shut_down_requested (request_shutdown (initial_state :: (int \<times> int) server_state))"
    by (simp add: request_shutdown_def)
  have up: "\<not> shut_down_requested (initial_state :: (int \<times> int) server_state)"
    by (simp add: initial_state_def)
  from abort_name have "loadAndProcessSubmap example_env [] ''/maps/s1'' initial_state = Fatal"
    by simp
  moreover from abort_path
  have "loadAndProcessSubmap example_env ''robot_a'' [] initial_state = Fatal"
    by simp
  moreover from refused down
  have r: "loadAndProcessSubmap example_env ''robot_a'' ''/maps/s1'' (request_shutdown initial_state)
      = Returns (False, request_shutdown initial_state)"
    by simp
  moreover from refused r
  have "shut_down_requested (request_shutdown (initial_state :: (int \<times> int) server_state))"
    by blast
  moreover from accepted up
  have "loadAndProcessSubmap example_env ''robot_a'' ''/maps/s1'' initial_state
       = Returns (True,
           initial_state
             \<lparr> submap_processing_queue :=
                  [new_submap_process example_env ''robot_a'' ''/maps/s1'' 0],
               arrivals := 1 \<rparr>)"
    by (simp add: initial_state_def)
  ultimately show ?thesis by simp
qed

text \<open>
  C6 as stated fails: with an empty robot name the call does not return \<open>false\<close> with
  the state unchanged, it aborts.
\<close>

theorem submit_empty_name_counterexample:
  "loadAndProcessSubmap example_env [] ''/maps/s1'' initial_state
     \<noteq> Returns (False, initial_state)"
  by (simp add: loadAndProcessSubmap_def)

text \<open>
  C7 (amended). The derived map key is a deterministic function of the robot name and of
  the hash of the source path: two submissions derive equal keys exactly when their
  robot names are equal and the hashes of their source paths are equal (so equal robot
  name and source path always give equal keys). When the job of a task is about to load
  and the map store already holds a map under the key of the task, the process aborts.
\<close>

theorem map_key_from_robot_and_hash:
  "(map_key (new_submap_process env robot submap_path n)
      = map_key (new_submap_process env robot' submap_path' n')
     \<longleftrightarrow> robot = robot' \<and> std_hash env submap_path = std_hash env submap_path')
   \<and> (i < length (submap_processing_queue s)
        \<and> job (submap_processing_queue s ! i) = JobLoading
        \<and> map_manager s (map_key (submap_processing_queue s ! i)) \<noteq> None
       \<longrightarrow> job_step env i s = Fatal)"
  by (auto simp: new_submap_process_def derive_map_key_inj job_step_def Let_def)

text \<open>
  The same robot and path submitted twice derive the same key, and loading under a key
  that is already in the store is fatal.
\<close>

theorem map_key_from_robot_and_hash_witness:
  "map_key (new_submap_process example_env ''robot_a'' ''/maps/s1'' 0)
     = map_key (new_submap_process example_env ''robot_a'' ''/maps/s1'' 1)
   \<and> job_step example_env 0 example_reloading_state = Fatal"
proof -
  note key = map_key_from_robot_and_hash[where env = example_env and robot = "''robot_a''"
      and submap_path = "''/maps/s1''" and n = 0 and robot' = "''robot_a''"
      and submap_path' = "''/maps/s1''" and n' = 1 and i = 0 and s = example_reloading_state]
  have "0 < length (submap_processing_queue example_reloading_state)
      \<and> job (submap_processing_queue example_reloading_state ! 0) = JobLoading
      \<and> map_manager example_reloading_state
           (map_key (submap_processing_queue example_reloading_state ! 0)) \<noteq> None"
    by (simp add: example_reloading_state_def initial_state_def new_submap_process_def)
  with key show ?thesis by blast
qed

text \<open>
  C7 as stated fails: the key is not a function of the source path alone. Two
  submissions of the same path by different robots derive different keys; and with the
  example hash two different paths of one robot derive the same key, as some two paths
  do with every hash (\<open>std_hash_not_injective\<close>).
\<close>

theorem map_key_same_path_counterexample:
  "map_key (new_submap_process example_env ''robot_a'' ''/maps/s1'' 0)
     \<noteq> map_key (new_submap_process example_env ''robot_b'' ''/maps/s1'' 1)
   \<and> map_key (new_submap_process example_env ''robot_a'' ''Aa'' 0)
     = map_key (new_submap_process example_env ''robot_a'' ''BB'' 1)"
  by (simp add: new_submap_process_def derive_map_key_def example_env_def
      example_hash_collision)

section \<open>Map lookup\<close>

text \<open>
  C10. In \<^verbatim>\<open>mapLookup\<close> the check for a negative time stamp comes before the sensor is
  resolved: for a registered robot name and a negative time stamp the result is
  pose-never-available, whatever the sensor kind, the merged map and the mission are.
\<close>

theorem negative_timestamp_before_sensor:
  assumes "robot \<noteq> []" and "robot_to_mission_id_map s robot = Some mission"
    and "timestamp_ns <s 0"
  shows "mapLookup geo env s robot sensor_type timestamp_ns p_S
           = Returns (kPoseNeverAvailable, None)"
  using assms by (simp add: mapLookup_def)

text \<open>
  The mission of the example has no lidar: a lookup of the lidar at a negative time stamp
  is pose-never-available, and at a time stamp inside the range it is no-such-sensor.
\<close>

theorem negative_timestamp_before_sensor_witness:
  "mapLookup example_geometry example_env example_merged_state ''robot_a'' kLidar (- 1) 4
     = Returns (kPoseNeverAvailable, None)
   \<and> mapLookup example_geometry example_env example_merged_state ''robot_a'' kLidar 150 4
     = Returns (kNoSuchSensor, None)"
proof -
  have "''robot_a'' \<noteq> []" by simp
  moreover have "robot_to_mission_id_map example_merged_state ''robot_a'' = Some (ValidId 7)"
    by (simp add: example_merged_state_def)
  moreover have "(- 1 :: int64) <s 0" by simp
  ultimately have "mapLookup example_geometry example_env example_merged_state ''robot_a''
      kLidar (- 1) 4 = Returns (kPoseNeverAvailable, None)"
    by (rule negative_timestamp_before_sensor)
  moreover have "mapLookup example_geometry example_env example_merged_state ''robot_a''
      kLidar 150 4 = Returns (kNoSuchSensor, None)"
    by (simp add: mapLookup_def example_defs word_sless_alt)
  ultimately show ?thesis by simp
qed

subsection \<open>The example runs\<close>

lemma derive_map_key_nonempty: "derive_map_key r h \<noteq> []"
  by (simp add: derive_map_key_def)

lemmas run_defs = loadAndProcessSubmap_def job_step_def merge_front_def new_submap_process_def
  update_task_def initial_state_def example_env_def Let_def run_console_command_def
  merge_into_global_def set_first_baseframe_known_def example_submap_def numMissions_def
  example_mission_def run_global_map_commands_def request_shutdown_def
  derive_map_key_inj derive_map_key_neq derive_map_key_nonempty ends_in_digit_def

lemma example_trace_returns:
  "run example_env example_trace initial_state = Returns (run_example example_trace)"
  by (simp add: run_example_def example_trace_def run_defs)

lemma example_trace_order:
  "map arrival (merged_tasks (run_example example_trace)) = [0] \<and> 
   map arrival (submap_processing_queue (run_example example_trace)) = [1]"
  by (simp add: run_example_def example_trace_def run_defs)

lemma example_trace_queue:
  "submap_processing_queue (run_example example_trace) \<noteq> []
   \<and> merged_tasks (run_example example_trace) \<noteq> []"
  by (simp add: run_example_def example_trace_def run_defs)

lemma example_shutdown_trace_returns:
  "run example_env example_shutdown_trace initial_state
     = Returns (run_example example_shutdown_trace)"
  by (simp add: run_example_def example_shutdown_trace_def run_defs)

lemma example_shutdown_later:
  "run example_env [MergeRound, Job 0, GlobalCommands] (run_example example_shutdown_trace)
     = Returns (run_example (example_shutdown_trace @ [MergeRound, Job 0, GlobalCommands]))"
  by (simp add: run_example_def example_shutdown_trace_def run_defs)

lemma example_shutdown_task:
  "submap_processing_queue (run_example example_shutdown_trace) \<noteq> []
   \<and> shutdown_observed (hd (submap_processing_queue (run_example example_shutdown_trace)))
   \<and> commands_run (hd (submap_processing_queue (run_example example_shutdown_trace)))
       = [''optimize'', ''keyframe'']"
  by (simp add: run_example_def example_shutdown_trace_def run_defs)

lemma example_lookup_success:
  "mapLookup example_geometry example_env example_merged_state ''robot_a'' kNCamera 150 4
     = Returns (kSuccess, Some (39, 15))"
  by (simp add: mapLookup_def example_env_def example_merged_state_def initial_state_def
      example_submap_def getMission_def example_mission_def example_time_range_def
      example_interpolate_def example_geometry_def getPosesAtTime_def word_sless_alt
      word_sle_eq)

lemma example_other_order_differs:
  "tf_apply example_geometry
     (tf_mult example_geometry
        (tf_mult example_geometry (sensor_T_B_S example_submap 0)
           (interpolate_pose example_env example_submap (ValidId 7) 150))
        (T_G_M example_mission)) 4 = 49"
  by (simp add: example_env_def example_submap_def getMission_def example_mission_def
      example_interpolate_def example_geometry_def word_sle_eq)

subsection \<open>Steps of the merge loop and of a job\<close>

lemma merge_front_cases:
  assumes "merge_front env s = Returns (c, s')"
  shows "(\<not> c \<and> s' = s)
       \<or> (c \<and> \<not> shut_down_requested s
           \<and> (\<exists>sp rest. submap_processing_queue s = sp # rest
                 \<and> \<not> mutex_locked sp \<and> is_loaded sp \<and> is_processed sp
                 \<and> submap_processing_queue s' = rest
                 \<and> merged_tasks s' = merged_tasks s @ [sp\<lparr> is_merged := True, mutex_locked := False \<rparr>]
                 \<and> arrivals s' = arrivals s))"
  using assms
  by (auto simp: merge_front_def Let_def
      split: list.splits if_splits option.splits outcome.splits prod.splits)

lemma merge_front_blocked:
  assumes "submap_processing_queue s = sp # rest"
    and "mutex_locked sp \<or> \<not> is_loaded sp \<or> \<not> is_processed sp"
  shows "merge_front env s = Returns (False, s)"
  using assms by (auto simp: merge_front_def)

lemma merge_ready_submaps_prefix:
  "merge_ready_submaps env s = Returns s' \<Longrightarrow>
     \<exists>k. submap_processing_queue s' = drop k (submap_processing_queue s)
        \<and> merged_tasks s' = merged_tasks s
             @ map (\<lambda>sp. sp\<lparr> is_merged := True, mutex_locked := False \<rparr>)
                 (take k (submap_processing_queue s))"
proof (induction env s rule: merge_ready_submaps.induct)
  case (1 env s)
  from "1.prems" obtain c s1 where mf: "merge_front env s = Returns (c, s1)"
    by (subst (asm) merge_ready_submaps.simps) (auto split: outcome.splits)
  show ?case
  proof (cases c)
    case False
    with mf "1.prems" have "s' = s"
      by (subst (asm) merge_ready_submaps.simps) (auto dest: merge_front_cases)
    then have "submap_processing_queue s' = drop 0 (submap_processing_queue s)
        \<and> merged_tasks s' = merged_tasks s
             @ map (\<lambda>sp. sp\<lparr> is_merged := True, mutex_locked := False \<rparr>)
                 (take 0 (submap_processing_queue s))"
      by simp
    then show ?thesis by blast
  next
    case True
    with mf "1.prems" have r: "merge_ready_submaps env s1 = Returns s'"
      by (subst (asm) merge_ready_submaps.simps) simp
    from "1.IH"[OF mf refl True r] obtain k where
      k: "submap_processing_queue s' = drop k (submap_processing_queue s1)"
         "merged_tasks s' = merged_tasks s1
             @ map (\<lambda>sp. sp\<lparr> is_merged := True, mutex_locked := False \<rparr>)
                 (take k (submap_processing_queue s1))"
      by blast
    from merge_front_cases[OF mf] True obtain sp rest where
      q: "submap_processing_queue s = sp # rest" "submap_processing_queue s1 = rest"
         "merged_tasks s1 = merged_tasks s @ [sp\<lparr> is_merged := True, mutex_locked := False \<rparr>]"
      by blast
    with k have "submap_processing_queue s' = drop (Suc k) (submap_processing_queue s)
        \<and> merged_tasks s' = merged_tasks s
             @ map (\<lambda>sp. sp\<lparr> is_merged := True, mutex_locked := False \<rparr>)
                 (take (Suc k) (submap_processing_queue s))"
      by simp
    then show ?thesis by blast
  qed
qed

lemma run_from_initial:
  assumes "run env evs initial_state = Returns s"
  shows "queue_inv env s"
  using assms initial_queue_inv by (rule run_queue_inv)

lemma no_flag_reset_refl: "no_flag_reset sp sp"
  by (simp add: no_flag_reset_def)

lemma in_set_update_cases:
  assumes "x \<in> set xs"
  shows "x \<in> set (xs[i := y]) \<or> (i < length xs \<and> x = xs ! i)"
proof -
  from assms obtain j where j: "j < length xs" "xs ! j = x"
    by (auto simp: in_set_conv_nth)
  show ?thesis
  proof (cases "j = i")
    case True
    with j show ?thesis by simp
  next
    case False
    with j have "xs[i := y] ! j = x" by simp
    with j show ?thesis by (metis length_list_update nth_mem)
  qed
qed

lemma job_step_task:
  assumes "job_step env i s = Returns s'" and "i < length (submap_processing_queue s)"
  shows "merged_tasks s' = merged_tasks s"
    and "submap_processing_queue s'
           = (submap_processing_queue s)[i := submap_processing_queue s' ! i]"
    and "no_flag_reset (submap_processing_queue s ! i) (submap_processing_queue s' ! i)"
    and "job (submap_processing_queue s ! i) = JobReturned \<Longrightarrow> s' = s"
proof -
  have "merged_tasks s' = merged_tasks s
      \<and> submap_processing_queue s'
           = (submap_processing_queue s)[i := submap_processing_queue s' ! i]
      \<and> no_flag_reset (submap_processing_queue s ! i) (submap_processing_queue s' ! i)
      \<and> (job (submap_processing_queue s ! i) = JobReturned \<longrightarrow> s' = s)"
  proof (cases "job (submap_processing_queue s ! i)")
    case (JobProcessing cs)
    with assms show ?thesis
      by (cases cs)
         (auto simp: job_step_def Let_def update_task_def no_flag_reset_def split: if_splits)
  qed (use assms in \<open>auto simp: job_step_def Let_def update_task_def no_flag_reset_def
         split: if_splits option.splits\<close>)
  then show "merged_tasks s' = merged_tasks s"
    and "submap_processing_queue s'
           = (submap_processing_queue s)[i := submap_processing_queue s' ! i]"
    and "no_flag_reset (submap_processing_queue s ! i) (submap_processing_queue s' ! i)"
    and "job (submap_processing_queue s ! i) = JobReturned \<Longrightarrow> s' = s"
    by simp_all
qed

lemma same_task_no_reset: "sp \<in> A \<Longrightarrow> \<exists>sp' \<in> A. no_flag_reset sp sp'"
  by (blast intro: no_flag_reset_refl)

lemma do_event_no_flag_reset:
  assumes "do_event env e s = Returns s'"
    and "sp \<in> set (submap_processing_queue s @ merged_tasks s)"
  shows "\<exists>sp' \<in> set (submap_processing_queue s' @ merged_tasks s'). no_flag_reset sp sp'"
proof (cases e)
  case (Submit robot p)
  with assms have "sp \<in> set (submap_processing_queue s' @ merged_tasks s')"
    by (auto simp: loadAndProcessSubmap_def split: if_splits)
  then show ?thesis by (rule same_task_no_reset)
next
  case (Job i)
  show ?thesis
  proof (cases "i < length (submap_processing_queue s)")
    case False
    with assms Job have "sp \<in> set (submap_processing_queue s' @ merged_tasks s')"
      by (auto simp: job_step_def)
    then show ?thesis by (rule same_task_no_reset)
  next
    case True
    from assms(1) Job have js: "job_step env i s = Returns s'" by simp
    note m = job_step_task(1)[OF js True] and q = job_step_task(2)[OF js True]
      and f = job_step_task(3)[OF js True]
    show ?thesis
    proof (cases "sp \<in> set (merged_tasks s)")
      case True
      with m have "sp \<in> set (submap_processing_queue s' @ merged_tasks s')" by simp
      then show ?thesis by (rule same_task_no_reset)
    next
      case False
      with assms(2) have "sp \<in> set (submap_processing_queue s)" by simp
      from in_set_update_cases[OF this, of i "submap_processing_queue s' ! i"]
      show ?thesis
      proof
        assume "sp \<in> set ((submap_processing_queue s)[i := submap_processing_queue s' ! i])"
        with q have "sp \<in> set (submap_processing_queue s' @ merged_tasks s')" by simp
        then show ?thesis by (rule same_task_no_reset)
      next
        assume a: "i < length (submap_processing_queue s) \<and> sp = submap_processing_queue s ! i"
        from q True have "length (submap_processing_queue s') = length (submap_processing_queue s)"
          by (metis length_list_update)
        with True have "submap_processing_queue s' ! i \<in> set (submap_processing_queue s')"
          by simp
        with f a show ?thesis by auto
      qed
    qed
  qed
next
  case MergeRound
  with assms(1) obtain c where mf: "merge_front env s = Returns (c, s')"
    by (auto split: outcome.splits)
  from merge_front_cases[OF mf] show ?thesis
  proof
    assume "\<not> c \<and> s' = s"
    with assms(2) show ?thesis by (blast intro: same_task_no_reset)
  next
    assume "c \<and> \<not> shut_down_requested s
           \<and> (\<exists>sp rest. submap_processing_queue s = sp # rest
                 \<and> \<not> mutex_locked sp \<and> is_loaded sp \<and> is_processed sp
                 \<and> submap_processing_queue s' = rest
                 \<and> merged_tasks s' = merged_tasks s @ [sp\<lparr> is_merged := True, mutex_locked := False \<rparr>]
                 \<and> arrivals s' = arrivals s)"
    then obtain front rest where q: "submap_processing_queue s = front # rest"
      "submap_processing_queue s' = rest"
      "merged_tasks s' = merged_tasks s @ [front\<lparr> is_merged := True, mutex_locked := False \<rparr>]"
      by blast
    show ?thesis
    proof (cases "sp = front")
      case True
      have "no_flag_reset front (front\<lparr> is_merged := True, mutex_locked := False \<rparr>)"
        by (simp add: no_flag_reset_def)
      with True q show ?thesis by auto
    next
      case False
      with assms(2) q have "sp \<in> set (submap_processing_queue s' @ merged_tasks s')"
        by auto
      then show ?thesis by (rule same_task_no_reset)
    qed
  qed
next
  case GlobalCommands
  with assms(1) have "submap_processing_queue s' = submap_processing_queue s"
    "merged_tasks s' = merged_tasks s"
    by (auto simp: run_global_map_commands_def)
  with assms(2) have "sp \<in> set (submap_processing_queue s' @ merged_tasks s')"
    by simp
  then show ?thesis by (rule same_task_no_reset)
next
  case Shutdown
  with assms(1) have "submap_processing_queue s' = submap_processing_queue s"
    "merged_tasks s' = merged_tasks s"
    by (auto simp: request_shutdown_def)
  with assms(2) have "sp \<in> set (submap_processing_queue s' @ merged_tasks s')"
    by simp
  then show ?thesis by (rule same_task_no_reset)
qed

lemma task_wf_flags:
  assumes "task_wf env sp"
  shows "\<not> is_merged sp" and "is_processed sp \<Longrightarrow> is_loaded sp"
    and "is_processed sp \<Longrightarrow> commands_run sp = config_submap_commands env"
    and "is_processed sp \<Longrightarrow> \<not> shutdown_observed sp"
    and "shutdown_observed sp \<Longrightarrow> job sp = JobReturned"
  using assms by (cases "job sp"; auto simp: task_wf_def split: if_splits)+

lemma do_event_keeps_aborted:
  assumes "do_event env e s = Returns s'" and "queue_inv env s"
    and "sp \<in> set (submap_processing_queue s)" and "shutdown_observed sp"
  shows "sp \<in> set (submap_processing_queue s')"
proof -
  from assms(2,3) have wf: "task_wf env sp"
    by (simp add: queue_inv_def list_all_iff)
  with assms(4) have ret: "job sp = JobReturned" and np: "\<not> is_processed sp"
    using task_wf_flags[OF wf] by auto
  show ?thesis
  proof (cases e)
    case (Submit robot p)
    with assms show ?thesis
      by (auto simp: loadAndProcessSubmap_def split: if_splits)
  next
    case (Job i)
    show ?thesis
    proof (cases "i < length (submap_processing_queue s)")
      case False
      with assms Job show ?thesis by (auto simp: job_step_def)
    next
      case True
      from assms(1) Job have js: "job_step env i s = Returns s'" by simp
      note q = job_step_task(2)[OF js True] and same = job_step_task(4)[OF js True]
      from in_set_update_cases[OF assms(3), of i "submap_processing_queue s' ! i"]
      show ?thesis
      proof
        assume "sp \<in> set ((submap_processing_queue s)[i := submap_processing_queue s' ! i])"
        with q show ?thesis by simp
      next
        assume "i < length (submap_processing_queue s) \<and> sp = submap_processing_queue s ! i"
        with same ret assms(3) show ?thesis by simp
      qed
    qed
  next
    case MergeRound
    with assms(1) obtain c where mf: "merge_front env s = Returns (c, s')"
      by (auto split: outcome.splits)
    from merge_front_cases[OF mf] assms(3) np show ?thesis by auto
  next
    case GlobalCommands
    with assms show ?thesis by (auto simp: run_global_map_commands_def)
  next
    case Shutdown
    with assms show ?thesis by (auto simp: request_shutdown_def)
  qed
qed

lemma run_keeps_aborted:
  "run env evs s = Returns s' \<Longrightarrow> queue_inv env s
     \<Longrightarrow> sp \<in> set (submap_processing_queue s) \<Longrightarrow> shutdown_observed sp
     \<Longrightarrow> sp \<in> set (submap_processing_queue s')"
proof (induction evs arbitrary: s)
  case Nil
  then show ?case by simp
next
  case (Cons e evs)
  from Cons.prems(1) obtain s1 where e: "do_event env e s = Returns s1"
    and r: "run env evs s1 = Returns s'"
    by (auto split: outcome.splits)
  from e Cons.prems have "queue_inv env s1" "sp \<in> set (submap_processing_queue s1)"
    by (auto dest: do_event_queue_inv do_event_keeps_aborted)
  with r Cons.IH Cons.prems(4) show ?case by blast
qed

lemma job_step_sees_shutdown:
  assumes "i < length (submap_processing_queue s)"
    and "job (submap_processing_queue s ! i) = JobProcessing (command # rest)"
    and "shut_down_requested s"
  shows "\<exists>s'. job_step env i s = Returns s'
           \<and> length (submap_processing_queue s') = length (submap_processing_queue s)
           \<and> job (submap_processing_queue s' ! i) = JobReturned
           \<and> is_processed (submap_processing_queue s' ! i)
               = is_processed (submap_processing_queue s ! i)
           \<and> shutdown_observed (submap_processing_queue s' ! i)
           \<and> \<not> mutex_locked (submap_processing_queue s' ! i)
           \<and> commands_run (submap_processing_queue s' ! i)
               = commands_run (submap_processing_queue s ! i) @ [command]"
  using assms by (simp add: job_step_def Let_def update_task_def)

section \<open>The merge loop\<close>

text \<open>
  C1. Whatever the interleaving of submissions, job steps, merge rounds, global commands
  and the shutdown request: the arrival numbers of the merged tasks, in the order they
  were merged and popped, followed by those of the tasks still queued, are
  \<open>0, 1, 2, \<dots>\<close>, so tasks are merged and removed in arrival order, whichever job
  finished first. A round of the merge loop looks at the front task only: it stops
  without any change when the mutex of the front task is taken or the task is not both
  loaded and processed, and when it goes on it has popped exactly the front task, after
  marking it merged. The whole loop, run on its own, merges a prefix of the queue.
\<close>

theorem merge_order_is_arrival_order:
  assumes "run env evs initial_state = Returns s"
  shows "map arrival (merged_tasks s @ submap_processing_queue s) = [0..<arrivals s]
       \<and> (\<forall>sp rest. submap_processing_queue s = sp # rest
             \<and> (mutex_locked sp \<or> \<not> is_loaded sp \<or> \<not> is_processed sp)
            \<longrightarrow> merge_front env s = Returns (False, s))
       \<and> (\<forall>continue s'. merge_front env s = Returns (continue, s')
            \<longrightarrow> (if continue
                 then \<exists>sp rest. submap_processing_queue s = sp # rest
                        \<and> submap_processing_queue s' = rest
                        \<and> merged_tasks s'
                            = merged_tasks s @ [sp\<lparr> is_merged := True, mutex_locked := False \<rparr>]
                 else s' = s))
       \<and> (\<forall>s'. merge_ready_submaps env s = Returns s'
            \<longrightarrow> (\<exists>k. submap_processing_queue s' = drop k (submap_processing_queue s)
                   \<and> merged_tasks s' = merged_tasks s
                        @ map (\<lambda>sp. sp\<lparr> is_merged := True, mutex_locked := False \<rparr>)
                            (take k (submap_processing_queue s))))"
proof (intro conjI allI impI)
  from run_from_initial[OF assms]
  show "map arrival (merged_tasks s @ submap_processing_queue s) = [0..<arrivals s]"
    by (simp add: queue_inv_def)
next
  fix sp rest
  assume "submap_processing_queue s = sp # rest
      \<and> (mutex_locked sp \<or> \<not> is_loaded sp \<or> \<not> is_processed sp)"
  then show "merge_front env s = Returns (False, s)"
    by (blast intro: merge_front_blocked)
next
  fix continue s'
  assume "merge_front env s = Returns (continue, s')"
  from merge_front_cases[OF this]
  show "if continue
        then \<exists>sp rest. submap_processing_queue s = sp # rest
               \<and> submap_processing_queue s' = rest
               \<and> merged_tasks s'
                   = merged_tasks s @ [sp\<lparr> is_merged := True, mutex_locked := False \<rparr>]
        else s' = s"
    by auto
next
  fix s'
  assume "merge_ready_submaps env s = Returns s'"
  then show "\<exists>k. submap_processing_queue s' = drop k (submap_processing_queue s)
      \<and> merged_tasks s' = merged_tasks s
           @ map (\<lambda>sp. sp\<lparr> is_merged := True, mutex_locked := False \<rparr>)
               (take k (submap_processing_queue s))"
    by (rule merge_ready_submaps_prefix)
qed

text \<open>
  On the first example run the second task is processed first and the first task is
  merged first.
\<close>

theorem merge_order_is_arrival_order_witness:
  "map arrival (merged_tasks (run_example example_trace)
      @ submap_processing_queue (run_example example_trace))
     = [0..<arrivals (run_example example_trace)]
   \<and> map arrival (merged_tasks (run_example example_trace)) = [0]
   \<and> map arrival (submap_processing_queue (run_example example_trace)) = [1]"
  using merge_order_is_arrival_order[OF example_trace_returns] example_trace_order
  by simp

text \<open>
  C2. At every state the threads can observe (the merge loop marks and pops under the
  mutex of the queue, so a round is one step): for every task, queued or popped, merged
  implies processed and processed implies loaded; no queued task is merged and every
  popped task is merged, each task being in exactly one of the two lists; and no step
  clears a flag of a task.
\<close>

theorem flags_ordered_and_merged_iff_removed:
  assumes "run env evs initial_state = Returns s"
  shows "(\<forall>sp \<in> set (submap_processing_queue s @ merged_tasks s).
            (is_merged sp \<longrightarrow> is_processed sp) \<and> (is_processed sp \<longrightarrow> is_loaded sp))
       \<and> (\<forall>sp \<in> set (submap_processing_queue s). \<not> is_merged sp)
       \<and> (\<forall>sp \<in> set (merged_tasks s). is_merged sp)
       \<and> distinct (map arrival (submap_processing_queue s @ merged_tasks s))
       \<and> (\<forall>e s'. do_event env e s = Returns s'
            \<longrightarrow> (\<forall>sp \<in> set (submap_processing_queue s @ merged_tasks s).
                  \<exists>sp' \<in> set (submap_processing_queue s' @ merged_tasks s').
                    no_flag_reset sp sp'))"
proof -
  from run_from_initial[OF assms] have inv: "queue_inv env s" .
  have q: "\<forall>sp \<in> set (submap_processing_queue s).
      \<not> is_merged sp \<and> (is_processed sp \<longrightarrow> is_loaded sp)"
    using inv by (auto simp: queue_inv_def list_all_iff dest: task_wf_flags)
  have m: "\<forall>sp \<in> set (merged_tasks s). is_merged sp \<and> is_processed sp \<and> is_loaded sp"
    using inv by (auto simp: queue_inv_def list_all_iff merged_wf_def)
  from q m have order: "\<forall>sp \<in> set (submap_processing_queue s @ merged_tasks s).
      (is_merged sp \<longrightarrow> is_processed sp) \<and> (is_processed sp \<longrightarrow> is_loaded sp)"
    by auto
  have "distinct (map arrival (merged_tasks s @ submap_processing_queue s))"
    using inv by (simp only: queue_inv_def distinct_upt)
  then have d: "distinct (map arrival (submap_processing_queue s @ merged_tasks s))"
    by auto
  have mono: "\<forall>e s'. do_event env e s = Returns s'
      \<longrightarrow> (\<forall>sp \<in> set (submap_processing_queue s @ merged_tasks s).
            \<exists>sp' \<in> set (submap_processing_queue s' @ merged_tasks s').
              no_flag_reset sp sp')"
    using do_event_no_flag_reset by blast
  from order q m d mono show ?thesis by blast
qed

text \<open>
  On the first example run, with one task merged and one still queued.
\<close>

theorem flags_ordered_and_merged_iff_removed_witness:
  "list_all is_merged (merged_tasks (run_example example_trace))
   \<and> list_all is_processed (merged_tasks (run_example example_trace))
   \<and> list_all is_loaded (merged_tasks (run_example example_trace))
   \<and> \<not> list_ex is_merged (submap_processing_queue (run_example example_trace))
   \<and> distinct (map arrival (submap_processing_queue (run_example example_trace)
        @ merged_tasks (run_example example_trace)))"
  using flags_ordered_and_merged_iff_removed[OF example_trace_returns]
  by (simp add: list_all_iff list_ex_iff)



section \<open>The worker job and the shutdown request\<close>

text \<open>
  C8. A task is processed only if its job has run every command of the configuration
  and has not seen the shutdown flag set. A round of the command loop that finds the
  flag set returns: the job has run the command of that round and none of the rest,
  and the task is not processed. From then on the task stays in the queue as it is,
  unprocessed and unmerged, whatever happens later: the merge loop never merges it.
\<close>

theorem processed_only_after_all_commands:
  assumes "run env evs initial_state = Returns s"
  shows "(\<forall>sp \<in> set (submap_processing_queue s @ merged_tasks s).
            is_processed sp
            \<longrightarrow> commands_run sp = config_submap_commands env \<and> \<not> shutdown_observed sp)
       \<and> (\<forall>i command rest.
            i < length (submap_processing_queue s)
            \<and> job (submap_processing_queue s ! i) = JobProcessing (command # rest)
            \<and> shut_down_requested s
            \<longrightarrow> (\<exists>s'. job_step env i s = Returns s'
                   \<and> job (submap_processing_queue s' ! i) = JobReturned
                   \<and> \<not> is_processed (submap_processing_queue s' ! i)
                   \<and> shutdown_observed (submap_processing_queue s' ! i)
                   \<and> commands_run (submap_processing_queue s' ! i)
                       = commands_run (submap_processing_queue s ! i) @ [command]))
       \<and> (\<forall>sp evs' s'.
            sp \<in> set (submap_processing_queue s) \<and> shutdown_observed sp
            \<and> run env evs' s = Returns s'
            \<longrightarrow> sp \<in> set (submap_processing_queue s') \<and> sp \<notin> set (merged_tasks s')
                \<and> \<not> is_processed sp \<and> \<not> is_merged sp)"
proof -
  from run_from_initial[OF assms] have inv: "queue_inv env s" .
  have complete: "\<forall>sp \<in> set (submap_processing_queue s @ merged_tasks s).
      is_processed sp
      \<longrightarrow> commands_run sp = config_submap_commands env \<and> \<not> shutdown_observed sp"
    using inv by (auto simp: queue_inv_def list_all_iff merged_wf_def dest: task_wf_flags)
  have abort: "\<exists>s'. job_step env i s = Returns s'
        \<and> job (submap_processing_queue s' ! i) = JobReturned
        \<and> \<not> is_processed (submap_processing_queue s' ! i)
        \<and> shutdown_observed (submap_processing_queue s' ! i)
        \<and> commands_run (submap_processing_queue s' ! i)
            = commands_run (submap_processing_queue s ! i) @ [command]"
    if h: "i < length (submap_processing_queue s)
        \<and> job (submap_processing_queue s ! i) = JobProcessing (command # rest)
        \<and> shut_down_requested s" for i command rest
  proof -
    from h inv have "task_wf env (submap_processing_queue s ! i)"
      by (simp add: queue_inv_def list_all_length)
    with h have "\<not> is_processed (submap_processing_queue s ! i)"
      by (simp add: task_wf_def)
    with job_step_sees_shutdown[of i s command rest env] h show ?thesis
      by auto
  qed
  have stays: "sp \<in> set (submap_processing_queue s') \<and> sp \<notin> set (merged_tasks s')
        \<and> \<not> is_processed sp \<and> \<not> is_merged sp"
    if h: "sp \<in> set (submap_processing_queue s) \<and> shutdown_observed sp
        \<and> run env evs' s = Returns s'" for sp evs' s'
  proof -
    from h inv have inv': "queue_inv env s'"
      by (blast intro: run_queue_inv)
    from h inv have wf: "task_wf env sp"
      by (simp add: queue_inv_def list_all_iff)
    from h inv have "sp \<in> set (submap_processing_queue s')"
      by (blast intro: run_keeps_aborted)
    moreover from h inv' have "sp \<notin> set (merged_tasks s')"
      by (auto simp: queue_inv_def list_all_iff merged_wf_def)
    moreover from h have "\<not> is_processed sp" "\<not> is_merged sp"
      using task_wf_flags[OF wf] by auto
    ultimately show ?thesis by simp
  qed
  from complete abort stays show ?thesis by blast
qed

text \<open>
  On the second example run the task whose job saw the shutdown is still queued, and
  not merged, after a further merge round, job step and global commands.
\<close>

theorem processed_only_after_all_commands_witness:
  "hd (submap_processing_queue (run_example example_shutdown_trace))
     \<in> set (submap_processing_queue
          (run_example (example_shutdown_trace @ [MergeRound, Job 0, GlobalCommands])))
   \<and> hd (submap_processing_queue (run_example example_shutdown_trace))
     \<notin> set (merged_tasks
          (run_example (example_shutdown_trace @ [MergeRound, Job 0, GlobalCommands])))
   \<and> \<not> is_processed (hd (submap_processing_queue (run_example example_shutdown_trace)))
   \<and> \<not> is_merged (hd (submap_processing_queue (run_example example_shutdown_trace)))"
proof -
  have "hd (submap_processing_queue (run_example example_shutdown_trace))
      \<in> set (submap_processing_queue (run_example example_shutdown_trace))"
    using example_shutdown_task by simp
  with processed_only_after_all_commands[OF example_shutdown_trace_returns]
    example_shutdown_task example_shutdown_later
  show ?thesis by blast
qed

section \<open>The status thread: labels\<close>

text \<open>
  C5 (amended). The status thread reports the internal-inconsistency error exactly for
  a task it reads as merged with its mutex free, and the ordinary label ``merged'' for
  a task it reads as merged with its mutex taken. For a task that is not merged the
  label is one of queued-for-loading, loading, queued-for-processing, processing,
  ready-to-merge and merging, fixed by the flags loaded and processed and by the mutex.
  No task in the queue is ever read as merged, so neither the error nor ``merged'' is
  ever reported.
\<close>

theorem status_error_is_merged_and_unlocked:
  "(submap_status sp = StatusError \<longleftrightarrow> is_merged sp \<and> \<not> mutex_locked sp)
   \<and> (submap_status sp = StatusMerged \<longleftrightarrow> is_merged sp \<and> mutex_locked sp)
   \<and> (\<not> is_merged sp \<longrightarrow>
        submap_status sp =
          (if mutex_locked sp
           then (if is_processed sp then StatusMerging
                 else if is_loaded sp then StatusProcessing else StatusLoading)
           else (if is_processed sp then StatusReadyToMerge
                 else if is_loaded sp then StatusQueuedForProcessing
                 else StatusQueuedForLoading)))
   \<and> (run env evs initial_state = Returns s \<longrightarrow>
        (\<forall>task \<in> set (submap_processing_queue s).
           \<not> is_merged task \<and> submap_status task \<noteq> StatusError
           \<and> submap_status task \<noteq> StatusMerged))"
proof -
  have "\<not> is_merged task \<and> submap_status task \<noteq> StatusError
      \<and> submap_status task \<noteq> StatusMerged"
    if "run env evs initial_state = Returns s" and "task \<in> set (submap_processing_queue s)"
    for task
  proof -
    from that run_from_initial[of env evs s] have "\<not> is_merged task"
      by (auto simp: queue_inv_def list_all_iff dest: task_wf_flags)
    then show ?thesis by (simp add: submap_status_def Let_def)
  qed
  then show ?thesis
    by (auto simp: submap_status_def Let_def)
qed

text \<open>
  The labels of a merged task, and of the task still queued after the first example run.
\<close>

theorem status_error_is_merged_and_unlocked_witness:
  "submap_status example_merged_task = StatusError
   \<and> submap_status (example_merged_task\<lparr> mutex_locked := True \<rparr>) = StatusMerged
   \<and> \<not> is_merged (hd (submap_processing_queue (run_example example_trace)))
   \<and> submap_status (hd (submap_processing_queue (run_example example_trace))) \<noteq> StatusError"
proof -
  have "hd (submap_processing_queue (run_example example_trace))
      \<in> set (submap_processing_queue (run_example example_trace))"
    using example_trace_queue by simp
  moreover note status_error_is_merged_and_unlocked[where sp = example_merged_task
      and env = example_env and evs = example_trace and s = "run_example example_trace"]
    status_error_is_merged_and_unlocked[where sp = "example_merged_task\<lparr> mutex_locked := True \<rparr>"
      and env = example_env and evs = example_trace and s = "run_example example_trace"]
    example_trace_returns
  ultimately show ?thesis
    by (simp add: example_merged_task_def new_submap_process_def)
qed

text \<open>
  C5 as stated fails: a task read as merged with its mutex taken gets the label
  ``merged'', and the error is the label of a merged task whose mutex is free.
\<close>

theorem status_merged_and_locked_counterexample:
  "submap_status (example_merged_task\<lparr> mutex_locked := True \<rparr>) = StatusMerged
   \<and> submap_status example_merged_task = StatusError"
  by (simp add: submap_status_def example_merged_task_def new_submap_process_def)

section \<open>Map lookup: time range and composition\<close>

text \<open>
  C3. For a registered robot whose mission is in the merged map and has the requested
  sensor, with \<open>tmin\<close> and \<open>tmax\<close> the time range of the mission: a time stamp that is
  negative or before \<open>tmin\<close> gives pose-never-available; otherwise a time stamp after
  \<open>tmax\<close> gives pose-not-available-yet; otherwise the lookup succeeds. The cases are
  tried in this order, and for a proper range \<open>0 \<le> tmin \<le> tmax\<close> they exclude each
  other: every time stamp after \<open>tmax\<close> gives pose-not-available-yet. The two
  out-of-range results are different values of the status.
\<close>

theorem lookup_time_range:
  assumes "robot \<noteq> []" and "robot_to_mission_id_map s robot = Some mid" and "isValid mid"
    and "map_manager s (kMergedMapKey env) = Some m"
    and "getMission m mid = Some mission"
    and "resolve_sensor mission sensor_type = Some sensor"
    and "getVertexToTimeStampMap env m mid = (tmin, tmax)"
  shows "(ts <s 0 \<or> ts <s tmin
           \<longrightarrow> mapLookup geo env s robot sensor_type ts p_S
                 = Returns (kPoseNeverAvailable, None))
       \<and> (\<not> ts <s 0 \<and> \<not> ts <s tmin \<and> tmax <s ts
           \<longrightarrow> mapLookup geo env s robot sensor_type ts p_S
                 = Returns (kPoseNotAvailableYet, None))
       \<and> (\<not> ts <s 0 \<and> \<not> ts <s tmin \<and> \<not> tmax <s ts
           \<longrightarrow> (\<exists>p_G sensor_p_G. mapLookup geo env s robot sensor_type ts p_S
                 = Returns (kSuccess, Some (p_G, sensor_p_G))))
       \<and> (0 \<le>s tmin \<and> tmin \<le>s tmax \<and> tmax <s ts
           \<longrightarrow> mapLookup geo env s robot sensor_type ts p_S
                 = Returns (kPoseNotAvailableYet, None))"
proof -
  have range: "\<not> ts <s 0 \<and> \<not> ts <s tmin" if "0 \<le>s tmin" "tmin \<le>s tmax" "tmax <s ts"
    using that by (simp add: word_sless_alt word_sle_eq)
  show ?thesis
    using assms range
    by (auto simp: mapLookup_def Let_def getPosesAtTime_def)
qed

text \<open>
  Before, after and inside the range \<open>[100, 200]\<close> of the example mission.
\<close>

theorem lookup_time_range_witness:
  "mapLookup example_geometry example_env example_merged_state ''robot_a'' kNCamera 50 4
     = Returns (kPoseNeverAvailable, None)
   \<and> mapLookup example_geometry example_env example_merged_state ''robot_a'' kNCamera 250 4
     = Returns (kPoseNotAvailableYet, None)
   \<and> mapLookup example_geometry example_env example_merged_state ''robot_a'' kNCamera 150 4
     = Returns (kSuccess, Some (39, 15))"
proof -
  have h: "''robot_a'' \<noteq> []"
    "robot_to_mission_id_map example_merged_state ''robot_a'' = Some (ValidId 7)"
    "isValid (ValidId 7)"
    "map_manager example_merged_state (kMergedMapKey example_env) = Some example_submap"
    "getMission example_submap (ValidId 7) = Some example_mission"
    "resolve_sensor example_mission kNCamera = Some 0"
    "getVertexToTimeStampMap example_env example_submap (ValidId 7) = (100, 200)"
    by (simp_all add: example_merged_state_def example_env_def example_submap_def
        getMission_def example_mission_def example_time_range_def)
  note t = lookup_time_range[OF h, where geo = example_geometry and p_S = 4]
  have "mapLookup example_geometry example_env example_merged_state ''robot_a'' kNCamera 50 4
     = Returns (kPoseNeverAvailable, None)"
    using t[where ts = 50, THEN conjunct1] by (simp add: word_sless_alt)
  moreover have "mapLookup example_geometry example_env example_merged_state ''robot_a''
      kNCamera 250 4 = Returns (kPoseNotAvailableYet, None)"
    using t[where ts = 250, THEN conjunct2, THEN conjunct2, THEN conjunct2]
    by (simp add: word_sless_alt word_sle_eq)
  moreover have "mapLookup example_geometry example_env example_merged_state ''robot_a''
      kNCamera 150 4 = Returns (kSuccess, Some (39, 15))"
    by (simp add: mapLookup_def example_env_def example_merged_state_def initial_state_def
        example_submap_def getMission_def example_mission_def example_time_range_def
        example_interpolate_def example_geometry_def getPosesAtTime_def word_sless_alt
        word_sle_eq)
  ultimately show ?thesis by simp
qed

text \<open>
  C4. A successful lookup returns the point \<open>T_G_S * p_S\<close> and the sensor origin
  \<open>T_G_S * 0\<close>, where \<open>T_G_S = (T_G_M * T_M_B) * T_B_S\<close>: the alignment of the mission,
  then the pose of the body interpolated at the time stamp, then the extrinsics of the
  sensor, in this order.
\<close>

theorem lookup_composition_order:
  assumes "mapLookup geo env s robot sensor_type ts p_S = Returns (kSuccess, out)"
  shows "\<exists>mid m mission sensor.
           robot_to_mission_id_map s robot = Some mid
         \<and> map_manager s (kMergedMapKey env) = Some m
         \<and> getMission m mid = Some mission
         \<and> resolve_sensor mission sensor_type = Some sensor
         \<and> out = Some
             (tf_apply geo
                (tf_mult geo (tf_mult geo (T_G_M mission) (interpolate_pose env m mid ts))
                   (sensor_T_B_S m sensor)) p_S,
              tf_apply geo
                (tf_mult geo (tf_mult geo (T_G_M mission) (interpolate_pose env m mid ts))
                   (sensor_T_B_S m sensor)) (vec_zero geo))"
  using assms
  by (auto simp: mapLookup_def Let_def getPosesAtTime_def
      split: if_splits option.splits prod.splits)

text \<open>
  The example lookup that succeeds; in the example geometry the product does not
  commute, and the opposite order gives another point (\<open>example_other_order_differs\<close>).
\<close>

theorem lookup_composition_order_witness:
  "mapLookup example_geometry example_env example_merged_state ''robot_a'' kNCamera 150 4
     = Returns (kSuccess, Some (39, 15))
   \<and> (39, 15) =
       (tf_apply example_geometry
          (tf_mult example_geometry
             (tf_mult example_geometry (T_G_M example_mission)
                (interpolate_pose example_env example_submap (ValidId 7) 150))
             (sensor_T_B_S example_submap 0)) 4,
        tf_apply example_geometry
          (tf_mult example_geometry
             (tf_mult example_geometry (T_G_M example_mission)
                (interpolate_pose example_env example_submap (ValidId 7) 150))
             (sensor_T_B_S example_submap 0)) (vec_zero example_geometry))"
proof -
  from lookup_composition_order[OF example_lookup_success]
  obtain mid m mission sensor where
    r: "robot_to_mission_id_map example_merged_state ''robot_a'' = Some mid"
    and mm: "map_manager example_merged_state (kMergedMapKey example_env) = Some m"
    and gm: "getMission m mid = Some mission"
    and rs: "resolve_sensor mission kNCamera = Some sensor"
    and out: "Some (39, 15) = Some
       (tf_apply example_geometry
          (tf_mult example_geometry
             (tf_mult example_geometry (T_G_M mission) (interpolate_pose example_env m mid 150))
             (sensor_T_B_S m sensor)) 4,
        tf_apply example_geometry
          (tf_mult example_geometry
             (tf_mult example_geometry (T_G_M mission) (interpolate_pose example_env m mid 150))
             (sensor_T_B_S m sensor)) (vec_zero example_geometry))"
    by blast
  from r have mid: "mid = ValidId 7"
    by (simp add: example_merged_state_def)
  from mm have m: "m = example_submap"
    by (simp add: example_merged_state_def example_env_def)
  from gm mid m have mission: "mission = example_mission"
    by (simp add: getMission_def example_submap_def example_mission_def)
  from rs mission have sensor: "sensor = 0"
    by (simp add: example_mission_def)
  from out mid m mission sensor example_lookup_success show ?thesis by simp
qed

end
